theory Spec2Isabelle
  imports Main
begin

section \<open>The Orthanc forwarder: data model\<close>

text \<open>
  A shallow embedding of \<^verbatim>\<open>orthanc_tools/orthanc_forwarder.py\<close>: the status record kept
  per instances set, the retry table, the per-mode dispatch \<^verbatim>\<open>_forward_to_destination\<close>,
  the \<^verbatim>\<open>forward\<close> loop and \<^verbatim>\<open>handle_instances_set\<close>. Calls into the Orthanc API client are
  recorded as events; whether such a call returns or raises is decided by the world,
  which sees the events so far.
\<close>

datatype ForwarderMode =
    DICOM
  | DICOM_SERIES_BY_SERIES
  | DICOM_WEB
  | DICOM_WEB_SERIES_BY_SERIES
  | PEERING
  | TRANSFER
  | UNKNOWN_MODE \<comment> \<open>any value outside the enumeration: the dataclass does not validate the field\<close>

record ForwarderDestination =
  destination :: string
  forwarder_mode :: ForwarderMode
  alternate_destination :: "string option"

record ForwarderInstancesSetStatus =
  processed :: bool
  sent_to_destinations :: "string list"
  retry_count :: nat
  next_retry :: "int option" \<comment> \<open>a datetime, in seconds; \<open>None\<close> as in Python\<close>

definition new_status :: ForwarderInstancesSetStatus where
  \<comment> \<open>\<^verbatim>\<open>ForwarderInstancesSetStatus()\<close>: the defaults of the dataclass\<close>
  "new_status = \<lparr>processed = False, sent_to_destinations = [], retry_count = 0, next_retry = None\<rparr>"

text \<open>
  An \<^verbatim>\<open>InstancesSet\<close> of the API client: its identity and its instances grouped by series,
  in order.
\<close>

record InstancesSet =
  set_id :: string
  by_series :: "(string \<times> string list) list"

definition series_ids :: "InstancesSet \<Rightarrow> string list" where
  "series_ids iset = map fst (by_series iset)"

definition instances_ids :: "InstancesSet \<Rightarrow> string list" where
  "instances_ids iset = concat (map snd (by_series iset))"

text \<open>The calls made to the source Orthanc and to the instances set.\<close>

datatype call =
    Modalities_send string "string list" "bool option"
      \<comment> \<open>target modality, resources, the \<^verbatim>\<open>synchronous\<close> argument when given\<close>
  | Dicomweb_send string "string list"
  | Peers_send string "string list"
  | Transfers_send string "string list"
  | Series_get string
  | Process_instances "string list"
  | Delete_filtered "string list" \<comment> \<open>\<^verbatim>\<open>filtered.delete()\<close> in \<^verbatim>\<open>filter\<close>\<close>
  | Delete_set "string list" \<comment> \<open>\<^verbatim>\<open>instances_set.delete()\<close> in \<^verbatim>\<open>delete\<close>\<close>

datatype error =
    TypeError
  | IndexError
  | NotImplementedError
  | CallFailed call \<comment> \<open>the exception raised by a call that fails\<close>

type_synonym event = "call \<times> bool"

record world =
  succeeds :: "event list \<Rightarrow> call \<Rightarrow> bool"
    \<comment> \<open>does this call return (rather than raise), after the events so far?\<close>
  uncompressed_size :: "string \<Rightarrow> nat"
    \<comment> \<open>\<^verbatim>\<open>series.statistics.uncompressed_size\<close> of a series\<close>

definition call_api :: "world \<Rightarrow> event list \<Rightarrow> call \<Rightarrow> error option \<times> event list" where
  "call_api w hist c =
     (if succeeds w hist c then (None, [(c, True)]) else (Some (CallFailed c), [(c, False)]))"

fun send_target :: "call \<Rightarrow> string option" where
  "send_target (Modalities_send t _ _) = Some t"
| "send_target (Dicomweb_send t _) = Some t"
| "send_target (Peers_send t _) = Some t"
| "send_target (Transfers_send t _) = Some t"
| "send_target _ = None"

section \<open>The retry table\<close>

definition retry_intervals :: "int list" where
  "retry_intervals = [60, 120, 300, 1800, 3600]"

definition py_index :: "'a list \<Rightarrow> int \<Rightarrow> error + 'a" where
  \<comment> \<open>list subscription of Python: an index below zero is taken from the end of the
      list, and an index outside the list raises\<close>
  "py_index xs i =
     (if 0 \<le> i \<and> i < int (length xs) then Inr (xs ! nat i)
      else if - int (length xs) \<le> i \<and> i < 0 then Inr (xs ! nat (i + int (length xs)))
      else Inl IndexError)"

definition retry_delay :: "nat \<Rightarrow> error + int" where
  \<comment> \<open>\<^verbatim>\<open>self.retry_intervals[min(retry_count, len(self.retry_intervals) - 1)]\<close>\<close>
  "retry_delay rc = py_index retry_intervals (min (int rc) (int (length retry_intervals) - 1))"

section \<open>Dispatch to one destination\<close>

definition get_instances_ids :: "InstancesSet \<Rightarrow> string \<Rightarrow> string \<Rightarrow> error + string list" where
  \<comment> \<open>\<^verbatim>\<open>InstancesSet.get_instances_ids(series_id=...)\<close> of the API client, called with one
      keyword argument: the name of the keyword, then its value. The method has the one
      parameter \<^verbatim>\<open>series_id\<close>; Python raises TypeError for any other keyword. A series
      that is not in the set has no instances.\<close>
  "get_instances_ids iset keyword s =
     (if keyword = ''series_id''
      then (case map_of (by_series iset) s of Some ids \<Rightarrow> Inr ids | None \<Rightarrow> Inr [])
      else Inl TypeError)"

fun for_each :: "('a \<Rightarrow> event list \<Rightarrow> error option \<times> event list) \<Rightarrow> 'a list \<Rightarrow> event list
    \<Rightarrow> error option \<times> event list" where
  \<comment> \<open>a \<^verbatim>\<open>for\<close> loop whose body may raise: the first exception ends the loop\<close>
  "for_each body [] hist = (None, [])"
| "for_each body (x # xs) hist =
     (case body x hist of
        (Some e, evs) \<Rightarrow> (Some e, evs)
      | (None, evs) \<Rightarrow>
          (case for_each body xs (hist @ evs) of (r, evs') \<Rightarrow> (r, evs @ evs')))"

definition send_series :: "world \<Rightarrow> InstancesSet \<Rightarrow> (string list \<Rightarrow> call) \<Rightarrow> string
    \<Rightarrow> event list \<Rightarrow> error option \<times> event list" where
  \<comment> \<open>\<^verbatim>\<open>send(..., resources_ids=instances_set.get_instances_ids(series_id=s))\<close>\<close>
  "send_series w iset mk s hist =
     (case get_instances_ids iset ''series_id'' s of
        Inl e \<Rightarrow> (Some e, [])
      | Inr ids \<Rightarrow> call_api w hist (mk ids))"

definition send_web_series :: "world \<Rightarrow> InstancesSet \<Rightarrow> string \<Rightarrow> string
    \<Rightarrow> event list \<Rightarrow> error option \<times> event list" where
  \<comment> \<open>the body of the loop of the mode \<^verbatim>\<open>DICOM_WEB_SERIES_BY_SERIES\<close> (lines 323 to 335)\<close>
  "send_web_series w iset target s hist =
     (case call_api w hist (Series_get s) of
        (Some e, evs) \<Rightarrow> (Some e, evs)
      | (None, evs) \<Rightarrow>
          if uncompressed_size w s > 1 * 1024 * 1024 * 1024
          then (case get_instances_ids iset ''seris_id'' s of
                  Inl e \<Rightarrow> (Some e, evs)
                | Inr ids \<Rightarrow>
                    (case for_each (\<lambda>i h. call_api w h (Dicomweb_send target [i])) ids (hist @ evs)
                     of (r, evs') \<Rightarrow> (r, evs @ evs')))
          else (case send_series w iset (Dicomweb_send target) s (hist @ evs)
                of (r, evs') \<Rightarrow> (r, evs @ evs')))"

definition forward_to_destination :: "world \<Rightarrow> InstancesSet \<Rightarrow> ForwarderDestination
    \<Rightarrow> event list \<Rightarrow> error option \<times> event list" where
  \<comment> \<open>\<^verbatim>\<open>OrthancForwarder._forward_to_destination\<close>: \<open>None\<close> when it returns, the exception
      when it raises, and the calls it made\<close>
  "forward_to_destination w iset dest hist =
     (case forwarder_mode dest of
        DICOM \<Rightarrow> call_api w hist (Modalities_send (destination dest) (instances_ids iset) None)
      | DICOM_SERIES_BY_SERIES \<Rightarrow>
          for_each (send_series w iset (\<lambda>ids. Modalities_send (destination dest) ids (Some True)))
            (series_ids iset) hist
      | DICOM_WEB \<Rightarrow>
          for_each (send_series w iset (Dicomweb_send (destination dest))) (series_ids iset) hist
      | DICOM_WEB_SERIES_BY_SERIES \<Rightarrow>
          for_each (send_web_series w iset (destination dest)) (series_ids iset) hist
      | PEERING \<Rightarrow> call_api w hist (Peers_send (destination dest) (instances_ids iset))
      | TRANSFER \<Rightarrow> call_api w hist (Transfers_send (destination dest) (instances_ids iset))
      | UNKNOWN_MODE \<Rightarrow> (Some NotImplementedError, []))"

section \<open>The forwarder and its pipeline\<close>

record OrthancForwarder =
  destinations :: "ForwarderDestination list"
  instance_filter :: "(string \<Rightarrow> bool) option"
  instance_processor :: bool
    \<comment> \<open>is a processor callback configured? What the callback does to the instances is
        the world's: \<^verbatim>\<open>process_instances\<close> returns or raises\<close>
  status :: "string \<rightharpoonup> ForwarderInstancesSetStatus"

definition filter_instances :: "(string \<Rightarrow> bool) \<Rightarrow> InstancesSet \<Rightarrow> InstancesSet \<times> InstancesSet" where
  \<comment> \<open>\<^verbatim>\<open>InstancesSet.filter_instances\<close> of the API client, a library outside this
      repository: the instances that satisfy the predicate stay in the set, the others
      are returned as a set of their own (the one that \<^verbatim>\<open>filter\<close> deletes, whose identity
      is not read). A series left without instances is removed from the set.\<close>
  "filter_instances f iset =
     (iset\<lparr>by_series :=
         filter (\<lambda>(s, ids). ids \<noteq> []) (map (\<lambda>(s, ids). (s, filter f ids)) (by_series iset))\<rparr>,
      iset\<lparr>by_series :=
         filter (\<lambda>(s, ids). ids \<noteq> [])
           (map (\<lambda>(s, ids). (s, filter (\<lambda>i. \<not> f i) ids)) (by_series iset))\<rparr>)"

definition filter_set :: "OrthancForwarder \<Rightarrow> world \<Rightarrow> InstancesSet \<Rightarrow> event list
    \<Rightarrow> error option \<times> InstancesSet \<times> event list" where
  \<comment> \<open>\<^verbatim>\<open>OrthancForwarder.filter\<close>\<close>
  "filter_set fw w iset hist =
     (case instance_filter fw of
        None \<Rightarrow> (None, iset, [])
      | Some f \<Rightarrow>
          (case filter_instances f iset of
             (kept, filtered) \<Rightarrow>
               (case call_api w hist (Delete_filtered (instances_ids filtered)) of
                  (r, evs) \<Rightarrow> (r, kept, evs))))"

definition process :: "OrthancForwarder \<Rightarrow> world \<Rightarrow> InstancesSet \<Rightarrow> event list
    \<Rightarrow> bool \<times> event list" where
  \<comment> \<open>\<^verbatim>\<open>OrthancForwarder.process\<close>: an exception of the processor is caught and gives False\<close>
  "process fw w iset hist =
     (if instance_processor fw
      then (case call_api w hist (Process_instances (instances_ids iset)) of
              (None, evs) \<Rightarrow> (True, evs)
            | (Some e, evs) \<Rightarrow> (False, evs))
      else (True, []))"

fun forward_loop :: "world \<Rightarrow> InstancesSet \<Rightarrow> string list \<Rightarrow> ForwarderDestination list
    \<Rightarrow> event list \<Rightarrow> string list \<times> event list" where
  \<comment> \<open>the loop of \<^verbatim>\<open>forward\<close> over the destinations still to visit: the names appended to
      \<^verbatim>\<open>sent_to_destinations\<close>, in order, and the calls made\<close>
  "forward_loop w iset already [] hist = ([], [])"
| "forward_loop w iset already (dest # dests) hist =
     (if destination dest \<notin> set already
      then (case forward_to_destination w iset dest hist of
              (None, evs) \<Rightarrow>
                (case forward_loop w iset already dests (hist @ evs) of
                   (sent, evs') \<Rightarrow> (destination dest # sent, evs @ evs'))
            | (Some e, evs) \<Rightarrow>
                (case forward_loop w iset already dests (hist @ evs) of
                   (sent, evs') \<Rightarrow> (sent, evs @ evs')))
      else (case forward_loop w iset already dests hist of
              (sent, evs') \<Rightarrow> (destination dest # sent, evs')))"

definition forward :: "OrthancForwarder \<Rightarrow> world \<Rightarrow> InstancesSet \<Rightarrow> string list \<Rightarrow> event list
    \<Rightarrow> string list \<times> event list" where
  \<comment> \<open>\<^verbatim>\<open>OrthancForwarder.forward\<close>\<close>
  "forward fw w iset already hist = forward_loop w iset already (destinations fw) hist"

definition delete_set :: "world \<Rightarrow> InstancesSet \<Rightarrow> event list \<Rightarrow> error option \<times> event list" where
  \<comment> \<open>\<^verbatim>\<open>OrthancForwarder.delete\<close>\<close>
  "delete_set w iset hist = call_api w hist (Delete_set (instances_ids iset))"

subsection \<open>The comparison of the retry gate\<close>

text \<open>
  Line 269 compares \<^verbatim>\<open>datetime.datetime.now\<close>, the method itself and not the value of a
  call, with \<^verbatim>\<open>next_retry\<close>, a datetime or None. The values that meet in this comparison,
  and Python's \<^verbatim>\<open><\<close> on them: two datetimes are ordered, any other pair raises TypeError.
\<close>

datatype pyvalue = Builtin_method | Datetime int | NoneValue

fun py_less :: "pyvalue \<Rightarrow> pyvalue \<Rightarrow> error + bool" where
  "py_less (Datetime a) (Datetime b) = Inr (a < b)"
| "py_less _ _ = Inl TypeError"

definition datetime_datetime_now :: pyvalue where
  \<comment> \<open>the expression \<^verbatim>\<open>datetime.datetime.now\<close>, without a call\<close>
  "datetime_datetime_now = Builtin_method"

definition next_retry_value :: "ForwarderInstancesSetStatus \<Rightarrow> pyvalue" where
  "next_retry_value s = (case next_retry s of None \<Rightarrow> NoneValue | Some t \<Rightarrow> Datetime t)"

subsection \<open>Handling an instances set\<close>

datatype outcome = Returned | Raised error

record run =
  outcome :: outcome
  forwarder :: OrthancForwarder \<comment> \<open>the forwarder after the call, with its status store\<close>
  events :: "event list" \<comment> \<open>the calls made during this call, in order\<close>
  forwarded :: "string list option"
    \<comment> \<open>the list returned by \<^verbatim>\<open>forward\<close> at line 285, when that line was reached\<close>

definition set_status :: "OrthancForwarder \<Rightarrow> string \<Rightarrow> ForwarderInstancesSetStatus \<Rightarrow> OrthancForwarder" where
  "set_status fw k s = fw\<lparr>status := (status fw)(k \<mapsto> s)\<rparr>"

definition complete :: "OrthancForwarder \<Rightarrow> world \<Rightarrow> int \<Rightarrow> InstancesSet
    \<Rightarrow> ForwarderInstancesSetStatus \<Rightarrow> string list \<Rightarrow> event list \<Rightarrow> event list \<Rightarrow> run" where
  \<comment> \<open>lines 286 to 300: \<open>s\<close> is the status of the set, \<open>sent\<close> the list that \<^verbatim>\<open>forward\<close>
      returned, \<open>evs\<close> the calls of this invocation so far\<close>
  "complete fw w now iset s sent hist evs =
     (if length sent = length (destinations fw)
      then (case delete_set w iset (hist @ evs) of
              (None, evs') \<Rightarrow>
                \<lparr>outcome = Returned, forwarder = set_status fw (set_id iset) s,
                 events = evs @ evs', forwarded = Some sent\<rparr>
            | (Some e, evs') \<Rightarrow>
                \<lparr>outcome = Raised e, forwarder = set_status fw (set_id iset) s,
                 events = evs @ evs', forwarded = Some sent\<rparr>)
      else (case retry_delay (retry_count s) of
              Inl e \<Rightarrow>
                \<lparr>outcome = Raised e,
                 forwarder = set_status fw (set_id iset) (s\<lparr>sent_to_destinations := sent\<rparr>),
                 events = evs, forwarded = Some sent\<rparr>
            | Inr delay \<Rightarrow>
                \<lparr>outcome = Returned,
                 forwarder = set_status fw (set_id iset)
                   (s\<lparr>sent_to_destinations := sent, next_retry := Some (now + delay),
                      retry_count := retry_count s + 1\<rparr>),
                 events = evs, forwarded = Some sent\<rparr>))"

definition pipeline :: "OrthancForwarder \<Rightarrow> world \<Rightarrow> int \<Rightarrow> InstancesSet
    \<Rightarrow> ForwarderInstancesSetStatus \<Rightarrow> event list \<Rightarrow> run" where
  \<comment> \<open>lines 273 to 300, once the gate is passed: \<open>s\<close> is the status stored for the set\<close>
  "pipeline fw w now iset s hist =
     (case filter_set fw w iset hist of
        (Some e, iset', evs1) \<Rightarrow>
          \<lparr>outcome = Raised e, forwarder = fw, events = evs1, forwarded = None\<rparr>
      | (None, iset', evs1) \<Rightarrow>
          (case (if \<not> processed s then process fw w iset' (hist @ evs1) else (True, [])) of
             (p, evs2) \<Rightarrow>
               (case forward fw w iset' (sent_to_destinations s) (hist @ evs1 @ evs2) of
                  (sent, evs3) \<Rightarrow>
                    complete fw w now iset' (s\<lparr>processed := p\<rparr>) sent hist (evs1 @ evs2 @ evs3))))"

definition handle_instances_set :: "OrthancForwarder \<Rightarrow> world \<Rightarrow> int \<Rightarrow> InstancesSet
    \<Rightarrow> event list \<Rightarrow> run" where
  \<comment> \<open>\<^verbatim>\<open>OrthancForwarder.handle_instances_set\<close>; \<open>now\<close> is what \<^verbatim>\<open>datetime.datetime.now()\<close>
      returns at line 293, \<open>hist\<close> the calls made before this invocation\<close>
  "handle_instances_set fw w now iset hist =
     (case status fw (set_id iset) of
        None \<Rightarrow>
          pipeline (set_status fw (set_id iset) new_status) w now iset new_status hist
      | Some s \<Rightarrow>
          (case py_less datetime_datetime_now (next_retry_value s) of
             Inl e \<Rightarrow> \<lparr>outcome = Raised e, forwarder = fw, events = [], forwarded = None\<rparr>
           | Inr True \<Rightarrow> \<lparr>outcome = Returned, forwarder = fw, events = [], forwarded = None\<rparr>
           | Inr False \<Rightarrow> pipeline fw w now iset s hist))"

fun handle_all :: "OrthancForwarder \<Rightarrow> world \<Rightarrow> (int \<times> InstancesSet) list \<Rightarrow> event list
    \<Rightarrow> OrthancForwarder \<times> event list" where
  \<comment> \<open>successive invocations, each with its clock reading: the status store and the
      calls made pass from one to the next, whether the invocation returned or raised\<close>
  "handle_all fw w [] hist = (fw, [])"
| "handle_all fw w ((now, iset) # rest) hist =
     (let r = handle_instances_set fw w now iset hist in
      case handle_all (forwarder r) w rest (hist @ events r) of
        (fw', evs) \<Rightarrow> (fw', events r @ evs))"

section \<open>What a run shows\<close>

fun transport_call :: "call \<Rightarrow> bool" where
  \<comment> \<open>the calls that \<^verbatim>\<open>_forward_to_destination\<close> makes\<close>
  "transport_call (Process_instances _) = False"
| "transport_call (Delete_filtered _) = False"
| "transport_call (Delete_set _) = False"
| "transport_call _ = True"

fun is_delete_set :: "call \<Rightarrow> bool" where
  "is_delete_set (Delete_set _) = True"
| "is_delete_set _ = False"

fun is_process :: "call \<Rightarrow> bool" where
  "is_process (Process_instances _) = True"
| "is_process _ = False"

definition targets_only :: "string \<Rightarrow> event \<Rightarrow> bool" where
  \<comment> \<open>a transport call that, if it is a send, goes to \<open>t\<close>\<close>
  "targets_only t e =
     (transport_call (fst e) \<and> (send_target (fst e) = None \<or> send_target (fst e) = Some t))"

definition deleted :: "event list \<Rightarrow> bool" where
  \<comment> \<open>was the instances set deleted from the source (was the call made)?\<close>
  "deleted evs = list_ex (\<lambda>e. is_delete_set (fst e)) evs"

definition process_results :: "event list \<Rightarrow> bool list" where
  \<comment> \<open>the applications of the processor callback, in order: True where it returned\<close>
  "process_results evs = map snd (filter (\<lambda>e. is_process (fst e)) evs)"

definition destination_names :: "OrthancForwarder \<Rightarrow> string list" where
  "destination_names fw = map destination (destinations fw)"

definition sent_before :: "OrthancForwarder \<Rightarrow> string \<Rightarrow> string list" where
  \<comment> \<open>the destinations recorded as sent for an identity; none when it has no record\<close>
  "sent_before fw k = (case status fw k of None \<Rightarrow> [] | Some s \<Rightarrow> sent_to_destinations s)"

definition deleted_set :: "InstancesSet \<Rightarrow> event list \<Rightarrow> bool" where
  \<comment> \<open>was the deletion of this instances set, of all its instances, called?\<close>
  "deleted_set iset evs = list_ex (\<lambda>e. fst e = Delete_set (instances_ids iset)) evs"

fun delivered_now :: "world \<Rightarrow> InstancesSet \<Rightarrow> string list \<Rightarrow> ForwarderDestination list
    \<Rightarrow> event list \<Rightarrow> string list" where
  \<comment> \<open>this round's successful sends: the destinations, of those not recorded in
      \<open>already\<close>, whose dispatch returns without raising, each dispatch coming after
      the calls of the dispatches before it\<close>
  "delivered_now w iset already [] hist = []"
| "delivered_now w iset already (dest # dests) hist =
     (if destination dest \<in> set already then delivered_now w iset already dests hist
      else if fst (forward_to_destination w iset dest hist) = None
      then destination dest
             # delivered_now w iset already dests (hist @ snd (forward_to_destination w iset dest hist))
      else delivered_now w iset already dests (hist @ snd (forward_to_destination w iset dest hist)))"

definition processed_flag :: "OrthancForwarder \<Rightarrow> string \<Rightarrow> bool" where
  "processed_flag fw k = (case status fw k of None \<Rightarrow> False | Some s \<Rightarrow> processed s)"

definition without_alternate :: "ForwarderDestination \<Rightarrow> ForwarderDestination" where
  "without_alternate d = d\<lparr>alternate_destination := None\<rparr>"

subsection \<open>Concrete inputs\<close>

definition dest_A :: ForwarderDestination where
  "dest_A = \<lparr>destination = ''A'', forwarder_mode = DICOM, alternate_destination = None\<rparr>"

definition dest_B :: ForwarderDestination where
  "dest_B = \<lparr>destination = ''B'', forwarder_mode = PEERING, alternate_destination = None\<rparr>"

definition dest_W :: ForwarderDestination where
  "dest_W = \<lparr>destination = ''W'', forwarder_mode = DICOM_WEB_SERIES_BY_SERIES,
             alternate_destination = None\<rparr>"

definition dest_A_peer :: ForwarderDestination where
  \<comment> \<open>a peer that is called A as well\<close>
  "dest_A_peer = \<lparr>destination = ''A'', forwarder_mode = PEERING, alternate_destination = None\<rparr>"

definition study :: InstancesSet where
  "study = \<lparr>set_id = ''study'', by_series = [(''s1'', [''i1'', ''i2'']), (''s2'', [''i3''])]\<rparr>"

definition forwarder_AB :: OrthancForwarder where
  \<comment> \<open>two destinations, a processor, no filter, nothing seen yet\<close>
  "forwarder_AB = \<lparr>destinations = [dest_A, dest_B], instance_filter = None,
                    instance_processor = True, status = Map.empty\<rparr>"

definition forwarder_A :: OrthancForwarder where
  "forwarder_A = \<lparr>destinations = [dest_A], instance_filter = None,
                   instance_processor = True, status = Map.empty\<rparr>"

definition forwarder_AA :: OrthancForwarder where
  \<comment> \<open>a modality and a peer of the same name\<close>
  "forwarder_AA = \<lparr>destinations = [dest_A, dest_A_peer], instance_filter = None,
                    instance_processor = True, status = Map.empty\<rparr>"

definition world_up :: world where
  \<comment> \<open>every call returns; every series is small\<close>
  "world_up = \<lparr>succeeds = (\<lambda>hist c. True), uncompressed_size = (\<lambda>s. 1000)\<rparr>"

definition world_B_down :: world where
  \<comment> \<open>the peer B cannot be reached\<close>
  "world_B_down = \<lparr>succeeds = (\<lambda>hist c. send_target c \<noteq> Some ''B''),
                    uncompressed_size = (\<lambda>s. 1000)\<rparr>"

definition world_peers_down :: world where
  \<comment> \<open>no peer can be reached; every other call returns\<close>
  "world_peers_down =
     \<lparr>succeeds = (\<lambda>hist c. case c of Peers_send t ids \<Rightarrow> False | _ \<Rightarrow> True),
      uncompressed_size = (\<lambda>s. 1000)\<rparr>"

definition world_processor_raises :: world where
  \<comment> \<open>the processor callback raises; every other call returns\<close>
  "world_processor_raises = \<lparr>succeeds = (\<lambda>hist c. \<not> is_process c),
                              uncompressed_size = (\<lambda>s. 1000)\<rparr>"

definition world_processor_raises_B_down :: world where
  \<comment> \<open>the processor callback raises and the peer B cannot be reached\<close>
  "world_processor_raises_B_down =
     \<lparr>succeeds = (\<lambda>hist c. \<not> is_process c \<and> send_target c \<noteq> Some ''B''),
      uncompressed_size = (\<lambda>s. 1000)\<rparr>"

definition dest_B_with_alternate :: ForwarderDestination where
  \<comment> \<open>B again, now with the alternate destination C\<close>
  "dest_B_with_alternate =
     \<lparr>destination = ''B'', forwarder_mode = PEERING, alternate_destination = Some ''C''\<rparr>"

definition world_large_series :: world where
  \<comment> \<open>every call returns; the series s1 is larger than 1 GiB\<close>
  "world_large_series = \<lparr>succeeds = (\<lambda>hist c. True),
       uncompressed_size = (\<lambda>s. if s = ''s1'' then 2 * 1024 * 1024 * 1024 else 1000)\<rparr>"

definition waiting_status :: ForwarderInstancesSetStatus where
  \<comment> \<open>the record left by a first invocation at time 100 that reached A only\<close>
  "waiting_status = \<lparr>processed = True, sent_to_destinations = [''A''], retry_count = 1,
                      next_retry = Some 160\<rparr>"

section \<open>Auxiliary facts\<close>

lemma retry_delay_value:
  "retry_delay rc =
     Inr (if rc = 0 then 60 else if rc = 1 then 120 else if rc = 2 then 300
          else if rc = 3 then 1800 else 3600)"
proof -
  consider "rc = 0" | "rc = 1" | "rc = 2" | "rc = 3" | "4 \<le> rc"
    by linarith
  then show ?thesis
  proof cases
    case 5
    then have "min (int rc) 4 = 4" by simp
    with 5 show ?thesis
      by (simp add: retry_delay_def retry_intervals_def py_index_def)
  qed (simp_all add: retry_delay_def retry_intervals_def py_index_def)
qed

lemma for_each_events:
  assumes body: "\<And>x h. \<forall>e \<in> set (snd (body x h)). P e"
  shows "\<forall>e \<in> set (snd (for_each body xs hist)). P e"
proof (induction xs arbitrary: hist)
  case Nil
  show ?case by simp
next
  case (Cons x xs)
  obtain r1 e1 where b: "body x hist = (r1, e1)" by (cases "body x hist")
  have p1: "\<forall>e \<in> set e1. P e" using body [of x hist] b by simp
  obtain r2 e2 where f: "for_each body xs (hist @ e1) = (r2, e2)"
    by (cases "for_each body xs (hist @ e1)")
  have p2: "\<forall>e \<in> set e2. P e" using Cons.IH [of "hist @ e1"] f by simp
  show ?case using b f p1 p2 by (cases r1) auto
qed

lemma call_api_targets:
  "transport_call c \<Longrightarrow> send_target c = None \<or> send_target c = Some t \<Longrightarrow>
   \<forall>e \<in> set (snd (call_api w h c)). targets_only t e"
  by (auto simp: call_api_def targets_only_def)

lemma send_target_transport: "send_target c = Some t \<Longrightarrow> transport_call c"
  by (cases c) simp_all

lemma send_series_targets:
  assumes "\<And>ids. send_target (mk ids) = Some t"
  shows "\<forall>e \<in> set (snd (send_series w iset mk s h)). targets_only t e"
  using assms call_api_targets [of "mk _" t w h] send_target_transport [of "mk _" t]
  by (auto simp: send_series_def split: sum.splits)

lemma get_instances_ids_misspelt:
  "get_instances_ids iset ''seris_id'' s = Inl TypeError"
  by (simp add: get_instances_ids_def)

lemma send_web_series_targets:
  "\<forall>e \<in> set (snd (send_web_series w iset t s h)). targets_only t e"
proof -
  obtain r0 e0 where c: "call_api w h (Series_get s) = (r0, e0)"
    by (cases "call_api w h (Series_get s)")
  have e0: "\<forall>e \<in> set e0. targets_only t e"
    using call_api_targets [of "Series_get s" t w h] c by simp
  have outer: "\<forall>e \<in> set (snd (send_series w iset (Dicomweb_send t) s h')). targets_only t e" for h'
    by (rule send_series_targets) simp
  show ?thesis
  proof (cases r0)
    case (Some e)
    with c e0 show ?thesis by (simp add: send_web_series_def)
  next
    case None
    show ?thesis
    proof (cases "uncompressed_size w s > 1 * 1024 * 1024 * 1024")
      case True
      with c None e0 show ?thesis
        by (simp add: send_web_series_def get_instances_ids_misspelt)
    next
      case False
      with c None e0 outer [of "h @ e0"] show ?thesis
        by (auto simp: send_web_series_def split: prod.splits)
    qed
  qed
qed

lemma forward_to_destination_targets:
  "\<forall>e \<in> set (snd (forward_to_destination w iset d hist)). targets_only (destination d) e"
proof (cases "forwarder_mode d")
  case DICOM
  then show ?thesis
    by (simp add: forward_to_destination_def call_api_def targets_only_def)
next
  case DICOM_SERIES_BY_SERIES
  have "\<forall>e \<in> set (snd (for_each (send_series w iset (\<lambda>ids. Modalities_send (destination d) ids (Some True)))
            (series_ids iset) hist)). targets_only (destination d) e"
    by (rule for_each_events) (rule send_series_targets, simp)
  with DICOM_SERIES_BY_SERIES show ?thesis
    by (simp add: forward_to_destination_def)
next
  case DICOM_WEB
  have "\<forall>e \<in> set (snd (for_each (send_series w iset (Dicomweb_send (destination d)))
            (series_ids iset) hist)). targets_only (destination d) e"
    by (rule for_each_events) (rule send_series_targets, simp)
  with DICOM_WEB show ?thesis
    by (simp add: forward_to_destination_def)
next
  case DICOM_WEB_SERIES_BY_SERIES
  have "\<forall>e \<in> set (snd (for_each (send_web_series w iset (destination d))
            (series_ids iset) hist)). targets_only (destination d) e"
    by (rule for_each_events) (rule send_web_series_targets)
  with DICOM_WEB_SERIES_BY_SERIES show ?thesis
    by (simp add: forward_to_destination_def)
next
  case PEERING
  then show ?thesis
    by (simp add: forward_to_destination_def call_api_def targets_only_def)
next
  case TRANSFER
  then show ?thesis
    by (simp add: forward_to_destination_def call_api_def targets_only_def)
next
  case UNKNOWN_MODE
  then show ?thesis
    by (simp add: forward_to_destination_def)
qed

lemma forward_loop_sent_subset:
  "set (fst (forward_loop w iset already dests hist)) \<subseteq> destination ` set dests"
proof (induction dests arbitrary: hist)
  case Nil
  show ?case by simp
next
  case (Cons d ds)
  show ?case
    using Cons.IH [of hist] Cons.IH [of "hist @ snd (forward_to_destination w iset d hist)"]
    by (auto split: prod.splits option.splits)
qed

lemma forward_loop_length:
  "length (fst (forward_loop w iset already dests hist)) \<le> length dests"
proof (induction dests arbitrary: hist)
  case Nil
  show ?case by simp
next
  case (Cons d ds)
  show ?case
    using Cons.IH [of hist] Cons.IH [of "hist @ snd (forward_to_destination w iset d hist)"]
    by (auto split: prod.splits option.splits)
qed

lemma forward_loop_distinct:
  "distinct (map destination dests) \<Longrightarrow> distinct (fst (forward_loop w iset already dests hist))"
proof (induction dests arbitrary: hist)
  case Nil
  show ?case by simp
next
  case (Cons d ds)
  have notin: "destination d \<notin> set (fst (forward_loop w iset already ds h))" for h
    using forward_loop_sent_subset [of w iset already ds h] Cons.prems by auto
  have dist: "distinct (fst (forward_loop w iset already ds h))" for h
    using Cons.IH Cons.prems by simp
  show ?case
    using notin [of hist] notin [of "hist @ snd (forward_to_destination w iset d hist)"]
      dist [of hist] dist [of "hist @ snd (forward_to_destination w iset d hist)"]
    by (auto split: prod.splits option.splits)
qed

lemma forward_loop_already_kept:
  "n \<in> set already \<Longrightarrow> n \<in> destination ` set dests \<Longrightarrow>
   n \<in> set (fst (forward_loop w iset already dests hist))"
proof (induction dests arbitrary: hist)
  case Nil
  then show ?case by simp
next
  case (Cons d ds)
  show ?case
  proof (cases "destination d \<in> set already")
    case True
    show ?thesis
    proof (cases "n = destination d")
      case True
      with \<open>destination d \<in> set already\<close> show ?thesis by (simp split: prod.splits)
    next
      case False
      with Cons.prems have "n \<in> destination ` set ds" by auto
      from Cons.IH [OF Cons.prems(1) this, of hist] True show ?thesis
        by (auto split: prod.splits)
    qed
  next
    case False
    with Cons.prems have "n \<in> destination ` set ds" by auto
    from Cons.IH [OF Cons.prems(1) this, of "hist @ snd (forward_to_destination w iset d hist)"] False
    show ?thesis
      by (auto split: prod.splits option.splits)
  qed
qed

lemma forward_loop_no_send_to_already:
  "n \<in> set already \<Longrightarrow>
   \<forall>e \<in> set (snd (forward_loop w iset already dests hist)). send_target (fst e) \<noteq> Some n"
proof (induction dests arbitrary: hist)
  case Nil
  show ?case by simp
next
  case (Cons d ds)
  show ?case
  proof (cases "destination d \<in> set already")
    case True
    with Cons.IH [OF Cons.prems, of hist] show ?thesis
      by (simp split: prod.splits)
  next
    case False
    with Cons.prems have ne: "destination d \<noteq> n" by auto
    have here: "\<forall>e \<in> set (snd (forward_to_destination w iset d hist)). send_target (fst e) \<noteq> Some n"
      using forward_to_destination_targets [of w iset d hist] ne
      by (auto simp: targets_only_def)
    from Cons.IH [OF Cons.prems, of "hist @ snd (forward_to_destination w iset d hist)"] here False
    show ?thesis
      by (auto split: prod.splits option.splits)
  qed
qed

lemma forward_loop_targets:
  "\<forall>e \<in> set (snd (forward_loop w iset already dests hist)).
     \<forall>t. send_target (fst e) = Some t \<longrightarrow> t \<in> destination ` set dests"
proof (induction dests arbitrary: hist)
  case Nil
  show ?case by simp
next
  case (Cons d ds)
  have here: "\<forall>e \<in> set (snd (forward_to_destination w iset d hist)).
      \<forall>t. send_target (fst e) = Some t \<longrightarrow> t = destination d"
    using forward_to_destination_targets [of w iset d hist]
    by (auto simp: targets_only_def)
  show ?case
    using Cons.IH [of hist] Cons.IH [of "hist @ snd (forward_to_destination w iset d hist)"] here
    by (auto split: prod.splits option.splits)
qed

lemma without_alternate_eqD:
  assumes "without_alternate d = without_alternate d'"
  shows "destination d = destination d'" and "forwarder_mode d = forwarder_mode d'"
proof -
  have "destination (without_alternate d) = destination (without_alternate d')"
    and "forwarder_mode (without_alternate d) = forwarder_mode (without_alternate d')"
    using assms by simp_all
  then show "destination d = destination d'" and "forwarder_mode d = forwarder_mode d'"
    by (simp_all add: without_alternate_def)
qed

lemma forward_to_destination_alternate:
  "without_alternate d = without_alternate d' \<Longrightarrow>
   forward_to_destination w iset d hist = forward_to_destination w iset d' hist"
proof -
  assume a: "without_alternate d = without_alternate d'"
  show ?thesis
    unfolding forward_to_destination_def without_alternate_eqD [OF a] ..
qed

lemma forward_loop_alternate:
  "map without_alternate ds = map without_alternate ds' \<Longrightarrow>
   forward_loop w iset already ds hist = forward_loop w iset already ds' hist"
proof (induction ds arbitrary: ds' hist)
  case Nil
  then show ?case by simp
next
  case (Cons d ds)
  then obtain d' ds'' where ds': "ds' = d' # ds''"
    and d: "without_alternate d = without_alternate d'"
    and rest: "map without_alternate ds = map without_alternate ds''"
    by (cases ds') auto
  show ?case
    unfolding ds' forward_loop.simps forward_to_destination_alternate [OF d, of w iset]
      without_alternate_eqD(1) [OF d] Cons.IH [OF rest] ..
qed

lemma forward_loop_transport:
  "\<forall>e \<in> set (snd (forward_loop w iset already dests hist)). transport_call (fst e)"
proof (induction dests arbitrary: hist)
  case Nil
  show ?case by simp
next
  case (Cons d ds)
  have here: "\<forall>e \<in> set (snd (forward_to_destination w iset d hist)). transport_call (fst e)"
    using forward_to_destination_targets [of w iset d hist]
    by (auto simp: targets_only_def)
  show ?case
    using Cons.IH [of hist] Cons.IH [of "hist @ snd (forward_to_destination w iset d hist)"] here
    by (auto split: prod.splits option.splits)
qed

lemma forward_loop_all:
  "length (fst (forward_loop w iset already dests hist)) = length dests \<Longrightarrow>
   fst (forward_loop w iset already dests hist) = map destination dests"
proof (induction dests arbitrary: hist)
  case Nil
  show ?case by simp
next
  case (Cons d ds)
  show ?case
    using Cons.prems Cons.IH [of hist]
      Cons.IH [of "hist @ snd (forward_to_destination w iset d hist)"]
      forward_loop_length [of w iset already ds "hist @ snd (forward_to_destination w iset d hist)"]
    by (auto split: prod.splits option.splits if_splits)
qed

lemma forward_loop_all_iff:
  assumes "distinct (map destination dests)"
  shows "(length (fst (forward_loop w iset already dests hist)) = length dests)
       = (set (fst (forward_loop w iset already dests hist)) = destination ` set dests)"
proof
  assume "length (fst (forward_loop w iset already dests hist)) = length dests"
  then show "set (fst (forward_loop w iset already dests hist)) = destination ` set dests"
    by (simp add: forward_loop_all)
next
  assume eq: "set (fst (forward_loop w iset already dests hist)) = destination ` set dests"
  have "length (fst (forward_loop w iset already dests hist))
      = card (set (fst (forward_loop w iset already dests hist)))"
    using forward_loop_distinct [OF assms] by (simp add: distinct_card)
  also have "\<dots> = card (set (map destination dests))"
    using eq by simp
  also have "\<dots> = length dests"
    using assms distinct_card [of "map destination dests"] by simp
  finally show "length (fst (forward_loop w iset already dests hist)) = length dests" .
qed

lemma py_less_method: "py_less datetime_datetime_now v = Inl TypeError"
  by (simp add: datetime_datetime_now_def)

lemma gate_raises:
  "status fw (set_id iset) = Some s \<Longrightarrow>
   handle_instances_set fw w now iset hist
     = \<lparr>outcome = Raised TypeError, forwarder = fw, events = [], forwarded = None\<rparr>"
  by (simp add: handle_instances_set_def py_less_method)

lemma filter_set_config [simp]: "filter_set (set_status fw k s) w iset hist = filter_set fw w iset hist"
  by (simp add: filter_set_def set_status_def)

lemma process_config [simp]: "process (set_status fw k s) w iset hist = process fw w iset hist"
  by (simp add: process_def set_status_def)

lemma forward_config [simp]: "forward (set_status fw k s) w iset already hist = forward fw w iset already hist"
  by (simp add: forward_def set_status_def)

lemma destinations_set_status [simp]: "destinations (set_status fw k s) = destinations fw"
  by (simp add: set_status_def)

lemma status_set_status [simp]: "status (set_status fw k s) = (status fw)(k \<mapsto> s)"
  by (simp add: set_status_def)

lemma set_status_twice [simp]: "set_status (set_status fw k s) k s' = set_status fw k s'"
  by (simp add: set_status_def)

lemma filter_set_id: "filter_set fw w iset hist = (r, iset', evs) \<Longrightarrow> set_id iset' = set_id iset"
  by (auto simp: filter_set_def filter_instances_def split: option.splits prod.splits)

lemma filter_set_events:
  "filter_set fw w iset hist = (r, iset', evs) \<Longrightarrow>
   \<forall>e \<in> set evs. \<not> is_delete_set (fst e) \<and> \<not> is_process (fst e) \<and> \<not> transport_call (fst e)"
  by (auto simp: filter_set_def filter_instances_def call_api_def split: option.splits prod.splits if_splits)

lemma process_cases:
  "process fw w iset hist = (p, evs) \<Longrightarrow>
   (evs = [] \<and> p \<and> \<not> instance_processor fw)
   \<or> (evs = [(Process_instances (instances_ids iset), p)] \<and> instance_processor fw)"
  by (auto simp: process_def call_api_def split: if_splits)

lemma delete_set_events:
  "delete_set w iset hist = (r, evs) \<Longrightarrow> \<exists>ok. evs = [(Delete_set (instances_ids iset), ok)] \<and> (r = None) = ok"
  by (auto simp: delete_set_def call_api_def split: if_splits)

lemma handle_first_sight:
  assumes fresh: "status fw (set_id iset) = None"
  obtains (filter_raised) e iset' evs1 where
      "filter_set fw w iset hist = (Some e, iset', evs1)"
      "handle_instances_set fw w now iset hist
         = \<lparr>outcome = Raised e, forwarder = set_status fw (set_id iset) new_status,
            events = evs1, forwarded = None\<rparr>"
  | (reached) iset' evs1 p evs2 sent evs3 where
      "filter_set fw w iset hist = (None, iset', evs1)"
      "process fw w iset' (hist @ evs1) = (p, evs2)"
      "forward fw w iset' [] (hist @ evs1 @ evs2) = (sent, evs3)"
      "handle_instances_set fw w now iset hist
         = complete (set_status fw (set_id iset) new_status) w now iset'
             (new_status\<lparr>processed := p\<rparr>) sent hist (evs1 @ evs2 @ evs3)"
proof -
  obtain r iset' evs1 where f: "filter_set fw w iset hist = (r, iset', evs1)"
    by (cases "filter_set fw w iset hist")
  show thesis
  proof (cases r)
    case (Some e)
    with f fresh show thesis
      by (intro filter_raised [of e iset' evs1])
        (simp_all add: handle_instances_set_def pipeline_def)
  next
    case None
    obtain p evs2 where pr: "process fw w iset' (hist @ evs1) = (p, evs2)"
      by (cases "process fw w iset' (hist @ evs1)")
    obtain sent evs3 where fo: "forward fw w iset' [] (hist @ evs1 @ evs2) = (sent, evs3)"
      by (cases "forward fw w iset' [] (hist @ evs1 @ evs2)")
    from f None pr fo fresh show thesis
      by (intro reached [of iset' evs1 p evs2 sent evs3])
        (simp_all add: handle_instances_set_def pipeline_def new_status_def)
  qed
qed

lemma complete_status_other:
  "k \<noteq> set_id iset \<Longrightarrow> status (forwarder (complete fw w now iset s sent hist evs)) k = status fw k"
  by (simp add: complete_def split: prod.splits option.splits sum.splits)

lemma complete_status_present:
  "status (forwarder (complete fw w now iset s sent hist evs)) (set_id iset) \<noteq> None"
  by (simp add: complete_def split: prod.splits option.splits sum.splits)

lemma handle_status_other:
  "k \<noteq> set_id iset \<Longrightarrow>
   status (forwarder (handle_instances_set fw w now iset hist)) k = status fw k"
proof (cases "status fw (set_id iset)")
  case (Some s)
  then show ?thesis by (simp add: gate_raises)
next
  case None
  assume k: "k \<noteq> set_id iset"
  from None show ?thesis
  proof (cases rule: handle_first_sight [where w = w and hist = hist and now = now])
    case (filter_raised e iset' evs1)
    with k show ?thesis by simp
  next
    case (reached iset' evs1 p evs2 sent evs3)
    from reached(1) have "set_id iset' = set_id iset" by (rule filter_set_id)
    with k reached(4) show ?thesis by (simp add: complete_status_other)
  qed
qed

lemma handle_status_present:
  "status (forwarder (handle_instances_set fw w now iset hist)) (set_id iset) \<noteq> None"
proof (cases "status fw (set_id iset)")
  case (Some s)
  then show ?thesis by (simp add: gate_raises)
next
  case None
  then show ?thesis
  proof (cases rule: handle_first_sight [where w = w and hist = hist and now = now])
    case (filter_raised e iset' evs1)
    then show ?thesis by simp
  next
    case (reached iset' evs1 p evs2 sent evs3)
    from reached(1) have "set_id iset' = set_id iset" by (rule filter_set_id)
    with reached(4) complete_status_present [of _ w now iset'] show ?thesis by simp
  qed
qed

lemma deleted_append [simp]: "deleted (xs @ ys) = (deleted xs \<or> deleted ys)"
  by (simp add: deleted_def)

lemma not_deleted_filter:
  "filter_set fw w iset hist = (r, iset', evs) \<Longrightarrow> \<not> deleted evs"
  using filter_set_events [of fw w iset hist r iset' evs]
  by (auto simp: deleted_def list_ex_iff)

lemma not_deleted_process:
  "process fw w iset hist = (p, evs) \<Longrightarrow> \<not> deleted evs"
  by (auto simp: deleted_def dest!: process_cases)

lemma not_deleted_forward:
  "forward fw w iset already hist = (sent, evs) \<Longrightarrow> \<not> deleted evs"
proof -
  assume a: "forward fw w iset already hist = (sent, evs)"
  have "is_delete_set c \<Longrightarrow> \<not> transport_call c" for c
    by (cases c) simp_all
  with forward_loop_transport [of w iset already "destinations fw" hist] a
  show ?thesis
    by (auto simp: deleted_def list_ex_iff forward_def)
qed

lemma complete_forwarded [simp]:
  "forwarded (complete fw w now iset s sent hist evs) = Some sent"
  by (simp add: complete_def retry_delay_value split: prod.splits option.splits)

lemma run_AB_up:
  "handle_instances_set forwarder_AB world_up 100 study []
     = \<lparr>outcome = Returned,
        forwarder = set_status forwarder_AB ''study'' (new_status\<lparr>processed := True\<rparr>),
        events = [(Process_instances [''i1'', ''i2'', ''i3''], True),
                  (Modalities_send ''A'' [''i1'', ''i2'', ''i3''] None, True),
                  (Peers_send ''B'' [''i1'', ''i2'', ''i3''], True),
                  (Delete_set [''i1'', ''i2'', ''i3''], True)],
        forwarded = Some [''A'', ''B'']\<rparr>"
  by (simp add: handle_instances_set_def pipeline_def complete_def filter_set_def process_def
      forward_def delete_set_def forward_to_destination_def call_api_def instances_ids_def
      forwarder_AB_def dest_A_def dest_B_def world_up_def study_def set_status_def new_status_def)

lemma run_AB_B_down:
  "handle_instances_set forwarder_AB world_B_down 100 study []
     = \<lparr>outcome = Returned,
        forwarder = set_status forwarder_AB ''study''
          \<lparr>processed = True, sent_to_destinations = [''A''], retry_count = 1, next_retry = Some 160\<rparr>,
        events = [(Process_instances [''i1'', ''i2'', ''i3''], True),
                  (Modalities_send ''A'' [''i1'', ''i2'', ''i3''] None, True),
                  (Peers_send ''B'' [''i1'', ''i2'', ''i3''], False)],
        forwarded = Some [''A'']\<rparr>"
  by (simp add: handle_instances_set_def pipeline_def complete_def filter_set_def process_def
      forward_def delete_set_def forward_to_destination_def call_api_def instances_ids_def
      forwarder_AB_def dest_A_def dest_B_def world_B_down_def study_def set_status_def
      new_status_def retry_delay_value)

lemma complete_last_event:
  "length sent = length (destinations fw) \<Longrightarrow>
   events (complete fw w now iset s sent hist evs) \<noteq> []
   \<and> is_delete_set (fst (last (events (complete fw w now iset s sent hist evs))))"
  by (auto simp: complete_def split: prod.splits option.splits dest!: delete_set_events)

lemma handle_forwarded_all:
  assumes "forwarded (handle_instances_set fw w now iset hist) = Some sent"
    and "length sent = length (destinations fw)"
  shows "events (handle_instances_set fw w now iset hist) \<noteq> []
       \<and> is_delete_set (fst (last (events (handle_instances_set fw w now iset hist))))"
proof (cases "status fw (set_id iset)")
  case (Some s)
  with assms(1) show ?thesis by (simp add: gate_raises)
next
  case None
  then show ?thesis
  proof (cases rule: handle_first_sight [where w = w and hist = hist and now = now])
    case (filter_raised e iset' evs1)
    with assms(1) show ?thesis by simp
  next
    case (reached iset' evs1 p evs2 sent' evs3)
    with assms(1) have "sent' = sent" by simp
    with reached(4) assms(2)
      complete_last_event [of sent "set_status fw (set_id iset) new_status" w now iset'
        "new_status\<lparr>processed := p\<rparr>" hist "evs1 @ evs2 @ evs3"]
    show ?thesis by simp
  qed
qed

lemma handle_status_kept:
  "status fw k \<noteq> None \<Longrightarrow> status (forwarder (handle_instances_set fw w now iset hist)) k \<noteq> None"
  using handle_status_other [of k iset fw w now hist] handle_status_present [of fw w now iset hist]
  by (cases "k = set_id iset") auto

lemma run_A_processor_raises:
  "handle_instances_set forwarder_A world_processor_raises 100 study []
     = \<lparr>outcome = Returned,
        forwarder = set_status forwarder_A ''study'' new_status,
        events = [(Process_instances [''i1'', ''i2'', ''i3''], False),
                  (Modalities_send ''A'' [''i1'', ''i2'', ''i3''] None, True),
                  (Delete_set [''i1'', ''i2'', ''i3''], True)],
        forwarded = Some [''A'']\<rparr>"
  by (simp add: handle_instances_set_def pipeline_def complete_def filter_set_def process_def
      forward_def delete_set_def forward_to_destination_def call_api_def instances_ids_def
      forwarder_A_def dest_A_def world_processor_raises_def study_def set_status_def new_status_def)

lemma handle_all_seen:
  "status fw k = Some s \<Longrightarrow> \<forall>inv \<in> set invs. set_id (snd inv) = k \<Longrightarrow>
   handle_all fw w invs hist = (fw, [])"
proof (induction invs arbitrary: hist)
  case Nil
  show ?case by simp
next
  case (Cons inv invs)
  obtain now iset where inv: "inv = (now, iset)" by (cases inv)
  with Cons.prems have "status fw (set_id iset) = Some s" by simp
  then have "handle_instances_set fw w now iset hist
      = \<lparr>outcome = Raised TypeError, forwarder = fw, events = [], forwarded = None\<rparr>"
    by (rule gate_raises)
  with Cons.IH [of hist] Cons.prems inv show ?case by (simp add: Let_def)
qed

lemma process_results_append [simp]:
  "process_results (xs @ ys) = process_results xs @ process_results ys"
  by (simp add: process_results_def)

lemma process_results_filter:
  "filter_set fw w iset hist = (r, iset', evs) \<Longrightarrow> process_results evs = []"
  using filter_set_events [of fw w iset hist r iset' evs]
  by (simp add: process_results_def filter_empty_conv)

lemma process_results_forward:
  "forward fw w iset already hist = (sent, evs) \<Longrightarrow> process_results evs = []"
proof -
  assume a: "forward fw w iset already hist = (sent, evs)"
  have "is_process c \<Longrightarrow> \<not> transport_call c" for c
    by (cases c) simp_all
  with forward_loop_transport [of w iset already "destinations fw" hist] a
  show ?thesis
    by (auto simp: process_results_def filter_empty_conv forward_def)
qed

lemma process_results_process:
  "process fw w iset hist = (p, evs) \<Longrightarrow> process_results evs = [] \<or> process_results evs = [p]"
  by (auto simp: process_results_def dest!: process_cases)

lemma complete_process_results:
  "process_results (events (complete fw w now iset s sent hist evs)) = process_results evs"
  by (auto simp: complete_def process_results_def split: prod.splits option.splits sum.splits
      dest!: delete_set_events)

lemma complete_processed:
  "processed_flag (forwarder (complete fw w now iset s sent hist evs)) (set_id iset) = processed s"
  by (simp add: complete_def processed_flag_def split: prod.splits option.splits sum.splits)

lemma handle_process_results:
  assumes "status fw (set_id iset) = None"
  shows "process_results (events (handle_instances_set fw w now iset hist)) = []
       \<or> process_results (events (handle_instances_set fw w now iset hist))
           = [processed_flag (forwarder (handle_instances_set fw w now iset hist)) (set_id iset)]"
  using assms
proof (cases rule: handle_first_sight [where w = w and hist = hist and now = now])
  case (filter_raised e iset' evs1)
  then show ?thesis by (simp add: process_results_filter)
next
  case (reached iset' evs1 p evs2 sent evs3)
  have id: "set_id iset' = set_id iset"
    using reached(1) by (rule filter_set_id)
  have flag: "processed_flag (forwarder (handle_instances_set fw w now iset hist)) (set_id iset) = p"
    unfolding reached(4) using complete_processed [of _ w now iset'] by (simp add: id)
  have "process_results (events (handle_instances_set fw w now iset hist)) = process_results evs2"
    unfolding reached(4) complete_process_results
    by (simp add: process_results_filter [OF reached(1)] process_results_forward [OF reached(3)])
  with flag process_results_process [OF reached(2)] show ?thesis by auto
qed

lemma filter_set_destinations [simp]:
  "filter_set (fw\<lparr>destinations := ds\<rparr>) w iset hist = filter_set fw w iset hist"
  by (simp add: filter_set_def)

lemma process_destinations [simp]:
  "process (fw\<lparr>destinations := ds\<rparr>) w iset hist = process fw w iset hist"
  by (simp add: process_def)

lemma forward_destinations_alternate:
  "map without_alternate ds = map without_alternate ds' \<Longrightarrow>
   forward (fw\<lparr>destinations := ds\<rparr>) w iset already hist
     = forward (fw\<lparr>destinations := ds'\<rparr>) w iset already hist"
  using forward_loop_alternate [of ds ds' w iset already hist] by (simp add: forward_def)

lemma complete_destinations:
  assumes len: "length ds = length ds'"
  shows "complete (fw\<lparr>destinations := ds'\<rparr>) w now iset s sent hist evs
     = (complete (fw\<lparr>destinations := ds\<rparr>) w now iset s sent hist evs)
         \<lparr>forwarder := (forwarder (complete (fw\<lparr>destinations := ds\<rparr>) w now iset s sent hist evs))
            \<lparr>destinations := ds'\<rparr>\<rparr>"
proof (cases "length sent = length ds")
  case True
  obtain r evs' where d: "delete_set w iset (hist @ evs) = (r, evs')"
    by (cases "delete_set w iset (hist @ evs)")
  from True len d show ?thesis
    by (cases r) (simp_all add: complete_def set_status_def)
next
  case False
  with len show ?thesis
    by (simp add: complete_def set_status_def retry_delay_value)
qed

lemma pipeline_destinations_alternate:
  assumes "map without_alternate ds = map without_alternate ds'"
  shows "pipeline (fw\<lparr>destinations := ds'\<rparr>) w now iset s hist
     = (pipeline (fw\<lparr>destinations := ds\<rparr>) w now iset s hist)
         \<lparr>forwarder := (forwarder (pipeline (fw\<lparr>destinations := ds\<rparr>) w now iset s hist))
            \<lparr>destinations := ds'\<rparr>\<rparr>"
proof -
  have len: "length ds = length ds'"
    using assms by (rule map_eq_imp_length_eq)
  show ?thesis
    unfolding pipeline_def filter_set_destinations process_destinations
      forward_destinations_alternate [OF assms, of fw]
    by (simp add: complete_destinations [OF len, of fw] split: prod.splits option.splits)
qed

lemma handle_destinations_alternate:
  assumes "map without_alternate ds = map without_alternate ds'"
  shows "handle_instances_set (fw\<lparr>destinations := ds'\<rparr>) w now iset hist
     = (handle_instances_set (fw\<lparr>destinations := ds\<rparr>) w now iset hist)
         \<lparr>forwarder := (forwarder (handle_instances_set (fw\<lparr>destinations := ds\<rparr>) w now iset hist))
            \<lparr>destinations := ds'\<rparr>\<rparr>"
proof -
  have st: "set_status (fw\<lparr>destinations := ds'\<rparr>) k s = (set_status fw k s)\<lparr>destinations := ds'\<rparr>"
    "set_status (fw\<lparr>destinations := ds\<rparr>) k s = (set_status fw k s)\<lparr>destinations := ds\<rparr>" for k s
    by (simp_all add: set_status_def)
  show ?thesis
    unfolding handle_instances_set_def st
    by (simp add: pipeline_destinations_alternate [OF assms] py_less_method
        split: option.splits)
qed

lemma pipeline_cases:
  obtains (filter_raised) e iset' evs1 where
      "filter_set fw w iset hist = (Some e, iset', evs1)"
      "pipeline fw w now iset s hist
         = \<lparr>outcome = Raised e, forwarder = fw, events = evs1, forwarded = None\<rparr>"
  | (reached) iset' evs1 p evs2 sent evs3 where
      "filter_set fw w iset hist = (None, iset', evs1)"
      "(if \<not> processed s then process fw w iset' (hist @ evs1) else (True, [])) = (p, evs2)"
      "forward fw w iset' (sent_to_destinations s) (hist @ evs1 @ evs2) = (sent, evs3)"
      "pipeline fw w now iset s hist
         = complete fw w now iset' (s\<lparr>processed := p\<rparr>) sent hist (evs1 @ evs2 @ evs3)"
proof -
  obtain r iset' evs1 where f: "filter_set fw w iset hist = (r, iset', evs1)"
    by (cases "filter_set fw w iset hist")
  show thesis
  proof (cases r)
    case (Some e)
    with f show thesis
      by (intro filter_raised [of e iset' evs1]) (simp_all add: pipeline_def)
  next
    case None
    obtain p evs2 where
      pr: "(if \<not> processed s then process fw w iset' (hist @ evs1) else (True, [])) = (p, evs2)"
      by (cases "if \<not> processed s then process fw w iset' (hist @ evs1) else (True, [])")
    obtain sent evs3 where
      fo: "forward fw w iset' (sent_to_destinations s) (hist @ evs1 @ evs2) = (sent, evs3)"
      by (cases "forward fw w iset' (sent_to_destinations s) (hist @ evs1 @ evs2)")
    from f None pr fo show thesis
      by (intro reached [of iset' evs1 p evs2 sent evs3]) (simp_all add: pipeline_def)
  qed
qed

lemma pipeline_processed:
  assumes st: "status fw (set_id iset) = Some s" and prd: "processed s"
  shows "process_results (events (pipeline fw w now iset s hist)) = []
       \<and> processed_flag (forwarder (pipeline fw w now iset s hist)) (set_id iset)"
proof (cases rule: pipeline_cases [of fw w iset hist now s])
  case (filter_raised e iset' evs1)
  with st prd show ?thesis
    by (simp add: process_results_filter processed_flag_def)
next
  case (reached iset' evs1 p evs2 sent evs3)
  have id: "set_id iset' = set_id iset"
    using reached(1) by (rule filter_set_id)
  from reached(2) prd have p: "p" and evs2: "evs2 = []" by simp_all
  have "process_results (events (pipeline fw w now iset s hist)) = []"
    unfolding reached(4) complete_process_results
    by (simp add: evs2 process_results_filter [OF reached(1)] process_results_forward [OF reached(3)])
  moreover have "processed_flag (forwarder (pipeline fw w now iset s hist)) (set_id iset)"
    unfolding reached(4) using complete_processed [of fw w now iset' "s\<lparr>processed := p\<rparr>"] p
    by (simp add: id)
  ultimately show ?thesis by simp
qed



lemma forward_loop_delivered:
  "set (fst (forward_loop w iset already dests hist))
     = (set already \<inter> destination ` set dests) \<union> set (delivered_now w iset already dests hist)"
proof (induction dests arbitrary: hist)
  case Nil
  show ?case by simp
next
  case (Cons d ds)
  obtain r evs where d: "forward_to_destination w iset d hist = (r, evs)"
    by (cases "forward_to_destination w iset d hist")
  show ?case
  proof (cases "destination d \<in> set already")
    case True
    with Cons.IH [of hist] show ?thesis
      by (auto split: prod.splits)
  next
    case False
    with Cons.IH [of "hist @ evs"] d show ?thesis
      by (cases r) (auto split: prod.splits)
  qed
qed

lemma deleted_set_deleted: "deleted_set iset evs \<Longrightarrow> deleted evs"
  by (force simp: deleted_set_def deleted_def list_ex_iff)

lemma complete_deleted_set:
  assumes "\<not> deleted evs"
  shows "deleted_set iset (events (complete fw w now iset s sent hist evs))
       = (length sent = length (destinations fw))"
proof -
  have nd: "\<not> deleted_set iset evs"
    using assms deleted_set_deleted by blast
  show ?thesis
  proof (cases "length sent = length (destinations fw)")
    case True
    obtain r evs' where d: "delete_set w iset (hist @ evs) = (r, evs')"
      by (cases "delete_set w iset (hist @ evs)")
    from delete_set_events [OF d] obtain ok where "evs' = [(Delete_set (instances_ids iset), ok)]"
      by blast
    with True d show ?thesis
      by (cases r) (simp_all add: complete_def deleted_set_def)
  next
    case False
    with nd show ?thesis
      by (simp add: complete_def retry_delay_value)
  qed
qed

lemma pipeline_deleted_iff:
  assumes flt: "filter_set fw w iset hist = (fr, iset', evs1)"
    and prc: "(if \<not> processed s then process fw w iset' (hist @ evs1) else (True, [])) = (p, evs2)"
    and names: "distinct (destination_names fw)"
    and known: "set (sent_to_destinations s) \<subseteq> set (destination_names fw)"
  shows "deleted_set iset' (events (pipeline fw w now iset s hist))
       = (fr = None
          \<and> set (sent_to_destinations s)
              \<union> set (delivered_now w iset' (sent_to_destinations s) (destinations fw)
                      (hist @ evs1 @ evs2))
            = set (destination_names fw))"
proof (cases fr)
  case (Some e)
  have "\<not> deleted_set iset' evs1"
    using not_deleted_filter [OF flt] deleted_set_deleted by blast
  with Some flt show ?thesis by (simp add: pipeline_def)
next
  case None
  obtain sent evs3 where
    fo: "forward fw w iset' (sent_to_destinations s) (hist @ evs1 @ evs2) = (sent, evs3)"
    by (cases "forward fw w iset' (sent_to_destinations s) (hist @ evs1 @ evs2)")
  have nd2: "\<not> deleted evs2"
    using prc not_deleted_process [of fw w iset' "hist @ evs1" p evs2]
    by (auto simp: deleted_def split: if_splits)
  have nd: "\<not> deleted (evs1 @ evs2 @ evs3)"
    using not_deleted_filter [OF flt] nd2 not_deleted_forward [OF fo] by simp
  have run: "pipeline fw w now iset s hist
      = complete fw w now iset' (s\<lparr>processed := p\<rparr>) sent hist (evs1 @ evs2 @ evs3)"
    using flt None prc fo by (simp add: pipeline_def)
  have del: "deleted_set iset' (events (pipeline fw w now iset s hist))
      = (length sent = length (destinations fw))"
    unfolding run by (rule complete_deleted_set [OF nd])
  have sent: "sent = fst (forward_loop w iset' (sent_to_destinations s) (destinations fw)
      (hist @ evs1 @ evs2))"
    using fo by (simp add: forward_def)
  have all: "(length sent = length (destinations fw)) = (set sent = set (destination_names fw))"
    unfolding sent
    using forward_loop_all_iff [of "destinations fw" w iset' "sent_to_destinations s"
        "hist @ evs1 @ evs2"] names
    by (simp add: destination_names_def)
  have "set sent = set (sent_to_destinations s)
      \<union> set (delivered_now w iset' (sent_to_destinations s) (destinations fw) (hist @ evs1 @ evs2))"
    unfolding sent forward_loop_delivered using known
    by (auto simp: destination_names_def)
  with del all None show ?thesis by simp
qed

lemma run_AA_peers_down:
  "handle_instances_set forwarder_AA world_peers_down 100 study []
     = \<lparr>outcome = Returned,
        forwarder = set_status forwarder_AA ''study''
          \<lparr>processed = True, sent_to_destinations = [''A''], retry_count = 1, next_retry = Some 160\<rparr>,
        events = [(Process_instances [''i1'', ''i2'', ''i3''], True),
                  (Modalities_send ''A'' [''i1'', ''i2'', ''i3''] None, True),
                  (Peers_send ''A'' [''i1'', ''i2'', ''i3''], False)],
        forwarded = Some [''A'']\<rparr>"
  by (simp add: handle_instances_set_def pipeline_def complete_def filter_set_def process_def
      forward_def delete_set_def forward_to_destination_def call_api_def instances_ids_def
      forwarder_AA_def dest_A_def dest_A_peer_def world_peers_down_def study_def set_status_def
      new_status_def retry_delay_value)

section \<open>The retry gate\<close>

text \<open>
  C2. What the code does at the retry gate: for an identity that has a record whose next
  retry (160) is after the current time (100), the invocation raises TypeError instead
  of returning, since line 269 compares the method \<^verbatim>\<open>datetime.datetime.now\<close> with the
  stored datetime. It raises as well once the next retry is in the past (at 5000).
\<close>

theorem retry_gate_comparison_raises:
  "status (set_status forwarder_AB ''study'' waiting_status) (set_id study) = Some waiting_status
   \<and> next_retry waiting_status = Some 160
   \<and> outcome (handle_instances_set (set_status forwarder_AB ''study'' waiting_status)
        world_up 100 study []) = Raised TypeError
   \<and> outcome (handle_instances_set (set_status forwarder_AB ''study'' waiting_status)
        world_up 5000 study []) = Raised TypeError"
proof -
  have seen: "status (set_status forwarder_AB ''study'' waiting_status) (set_id study)
      = Some waiting_status"
    by (simp add: study_def)
  have later: "next_retry waiting_status = Some 160"
    by (simp add: waiting_status_def)
  show ?thesis
    unfolding gate_raises [OF seen] using seen later by simp
qed

section \<open>The process step\<close>

text \<open>
  C1, as amended. For an instances set seen for the first time, when the process step
  fails the processed flag stays false and the same invocation still runs the forward
  step over the configured destinations. If every destination is then reported as sent
  the set is deleted; otherwise the list reported is stored, the retry count becomes 1
  and the next retry is set one first interval after now, as after any forwarding
  failure.
\<close>

theorem failed_process_still_forwards:
  assumes fresh: "status fw (set_id iset) = None"
    and flt: "filter_set fw w iset hist = (None, iset', evs1)"
    and prc: "process fw w iset' (hist @ evs1) = (False, evs2)"
    and fwd: "forward fw w iset' [] (hist @ evs1 @ evs2) = (sent, evs3)"
    and r: "handle_instances_set fw w now iset hist = r"
  shows "forwarded r = Some sent
       \<and> processed_flag (forwarder r) (set_id iset) = False
       \<and> (length sent = length (destinations fw) \<longrightarrow>
            events r = evs1 @ evs2 @ evs3 @ snd (delete_set w iset' (hist @ evs1 @ evs2 @ evs3)))
       \<and> (length sent \<noteq> length (destinations fw) \<longrightarrow>
            outcome r = Returned \<and> events r = evs1 @ evs2 @ evs3
            \<and> status (forwarder r) (set_id iset)
                = Some \<lparr>processed = False, sent_to_destinations = sent, retry_count = 1,
                        next_retry = Some (now + 60)\<rparr>)"
proof -
  have id: "set_id iset' = set_id iset"
    using flt by (rule filter_set_id)
  from fresh have "r = complete (set_status fw (set_id iset) new_status) w now iset'
             (new_status\<lparr>processed := False\<rparr>) sent hist (evs1 @ evs2 @ evs3)"
  proof (cases rule: handle_first_sight [where w = w and hist = hist and now = now])
    case (filter_raised e iset'' evs1')
    with flt show ?thesis by simp
  next
    case (reached iset'' evs1' p evs2' sent' evs3')
    with flt prc fwd r show ?thesis by simp
  qed
  then show ?thesis
    by (simp add: complete_def id retry_delay_value processed_flag_def new_status_def
        split: prod.splits option.splits)
qed

theorem failed_process_still_forwards_witness:
  "status forwarder_AB (set_id study) = None
   \<and> filter_set forwarder_AB world_processor_raises_B_down study [] = (None, study, [])
   \<and> process forwarder_AB world_processor_raises_B_down study ([] @ [])
       = (False, [(Process_instances [''i1'', ''i2'', ''i3''], False)])
   \<and> forward forwarder_AB world_processor_raises_B_down study []
         ([] @ [] @ [(Process_instances [''i1'', ''i2'', ''i3''], False)])
       = ([''A''], [(Modalities_send ''A'' [''i1'', ''i2'', ''i3''] None, True),
                    (Peers_send ''B'' [''i1'', ''i2'', ''i3''], False)])
   \<and> length [''A''] \<noteq> length (destinations forwarder_AB)
   \<and> forwarded (handle_instances_set forwarder_AB world_processor_raises_B_down 100 study [])
       = Some [''A'']
   \<and> status (forwarder (handle_instances_set forwarder_AB world_processor_raises_B_down 100 study []))
        (set_id study)
       = Some \<lparr>processed = False, sent_to_destinations = [''A''], retry_count = 1,
               next_retry = Some (100 + 60)\<rparr>"
proof -
  have fresh: "status forwarder_AB (set_id study) = None"
    by (simp add: forwarder_AB_def)
  have flt: "filter_set forwarder_AB world_processor_raises_B_down study [] = (None, study, [])"
    by (simp add: filter_set_def forwarder_AB_def)
  have prc: "process forwarder_AB world_processor_raises_B_down study ([] @ [])
       = (False, [(Process_instances [''i1'', ''i2'', ''i3''], False)])"
    by (simp add: process_def forwarder_AB_def call_api_def world_processor_raises_B_down_def
        instances_ids_def study_def)
  have fwd: "forward forwarder_AB world_processor_raises_B_down study []
         ([] @ [] @ [(Process_instances [''i1'', ''i2'', ''i3''], False)])
       = ([''A''], [(Modalities_send ''A'' [''i1'', ''i2'', ''i3''] None, True),
                    (Peers_send ''B'' [''i1'', ''i2'', ''i3''], False)])"
    by (simp add: forward_def forwarder_AB_def dest_A_def dest_B_def forward_to_destination_def
        call_api_def world_processor_raises_B_down_def instances_ids_def study_def)
  have len: "length [''A''] \<noteq> length (destinations forwarder_AB)"
    by (simp add: forwarder_AB_def)
  from failed_process_still_forwards [OF fresh flt prc fwd refl, of 100] fresh flt prc fwd len
  show ?thesis by simp
qed

text \<open>
  The claim C1 as first stated fails: with a processor that raises and one reachable
  destination, the invocation sends to the destination and deletes the set.
\<close>

theorem failed_process_skips_forward_counterexample:
  "processed_flag forwarder_A ''study'' = False
   \<and> process forwarder_A world_processor_raises study []
       = (False, [(Process_instances [''i1'', ''i2'', ''i3''], False)])
   \<and> events (handle_instances_set forwarder_A world_processor_raises 100 study [])
       = [(Process_instances [''i1'', ''i2'', ''i3''], False),
          (Modalities_send ''A'' [''i1'', ''i2'', ''i3''] None, True),
          (Delete_set [''i1'', ''i2'', ''i3''], True)]"
  unfolding run_A_processor_raises
  by (simp add: processed_flag_def forwarder_A_def process_def call_api_def
      world_processor_raises_def study_def instances_ids_def)

text \<open>
  C5. Over any sequence of invocations of \<^verbatim>\<open>handle_instances_set\<close> for one identity: once
  the processed flag is true it stays true and the processor is not applied again; and
  when the first application of the processor succeeds it is the only one, and the flag
  is true at the end. The pipeline itself skips the process step for a record whose
  flag is true and leaves the flag true.
\<close>

theorem processor_applied_once:
  assumes ids: "\<forall>inv \<in> set invs. set_id (snd inv) = k"
    and run: "handle_all fw w invs hist = (fw', evs)"
  shows "(processed_flag fw k \<longrightarrow> processed_flag fw' k \<and> process_results evs = [])
       \<and> (\<forall>rest. process_results evs = True # rest \<longrightarrow> rest = [] \<and> processed_flag fw' k)
       \<and> (status fw (set_id iset) = Some s \<and> processed s \<longrightarrow>
            process_results (events (pipeline fw w now iset s hist)) = []
            \<and> processed_flag (forwarder (pipeline fw w now iset s hist)) (set_id iset))"
proof -
  have invocations:
    "(processed_flag fw k \<longrightarrow> processed_flag fw' k \<and> process_results evs = [])
     \<and> (\<forall>rest. process_results evs = True # rest \<longrightarrow> rest = [] \<and> processed_flag fw' k)"
  proof (cases "status fw k")
    case (Some s)
    with ids run have "fw' = fw" and "evs = []"
      by (simp_all add: handle_all_seen)
    then show ?thesis by (simp add: process_results_def)
  next
    case None
    then have unprocessed: "\<not> processed_flag fw k"
      by (simp add: processed_flag_def)
    show ?thesis
    proof (cases invs)
      case Nil
      with run unprocessed show ?thesis by (simp add: process_results_def)
    next
      case (Cons inv rest)
      obtain now iset where inv: "inv = (now, iset)" by (cases inv)
      have id: "set_id iset = k" using ids Cons inv by simp
      let ?r = "handle_instances_set fw w now iset hist"
      obtain s where seen: "status (forwarder ?r) k = Some s"
        using handle_status_present [of fw w now iset hist] id by auto
      have "\<forall>inv \<in> set rest. set_id (snd inv) = k"
        using ids Cons by simp
      then have later: "handle_all (forwarder ?r) w rest (hist @ events ?r) = (forwarder ?r, [])"
        by (rule handle_all_seen [OF seen])
      have "fw' = forwarder ?r" and "evs = events ?r"
        using run Cons inv later by (simp_all add: Let_def)
      with unprocessed handle_process_results [of fw iset w now hist] None id
      show ?thesis by auto
    qed
  qed
  moreover have "status fw (set_id iset) = Some s \<and> processed s \<longrightarrow>
            process_results (events (pipeline fw w now iset s hist)) = []
            \<and> processed_flag (forwarder (pipeline fw w now iset s hist)) (set_id iset)"
    using pipeline_processed [of fw iset s w now hist] by blast
  ultimately show ?thesis by blast
qed

theorem processor_applied_once_witness:
  "set_id study = ''study''
   \<and> process_results (snd (handle_all forwarder_AB world_B_down
        [(100, study), (200, study), (5000, study)] [])) = [True]
   \<and> processed_flag (fst (handle_all forwarder_AB world_B_down
        [(100, study), (200, study), (5000, study)] [])) ''study''
   \<and> status (set_status forwarder_AB ''study'' waiting_status) (set_id study) = Some waiting_status
   \<and> processed waiting_status
   \<and> process_results (events (pipeline (set_status forwarder_AB ''study'' waiting_status)
        world_up 5000 study waiting_status [])) = []"
proof -
  have ids: "\<forall>inv \<in> set [(100, study), (200, study), (5000, study)]. set_id (snd inv) = ''study''"
    by (simp add: study_def)
  have first: "status (set_status forwarder_AB ''study'' s) (set_id study) = Some s" for s
    by (simp add: study_def)
  have run: "handle_all forwarder_AB world_B_down [(100, study), (200, study), (5000, study)] []
     = (set_status forwarder_AB ''study''
          \<lparr>processed = True, sent_to_destinations = [''A''], retry_count = 1, next_retry = Some 160\<rparr>,
        [(Process_instances [''i1'', ''i2'', ''i3''], True),
         (Modalities_send ''A'' [''i1'', ''i2'', ''i3''] None, True),
         (Peers_send ''B'' [''i1'', ''i2'', ''i3''], False)])"
    by (simp add: run_AB_B_down gate_raises [OF first] Let_def)
  have once: "process_results (snd (handle_all forwarder_AB world_B_down
        [(100, study), (200, study), (5000, study)] [])) = [True]"
    unfolding run by (simp add: process_results_def)
  have flag: "processed_flag (fst (handle_all forwarder_AB world_B_down
        [(100, study), (200, study), (5000, study)] [])) ''study''"
    using processor_applied_once [OF ids run] once unfolding run by simp
  have seen: "status (set_status forwarder_AB ''study'' waiting_status) (set_id study)
      = Some waiting_status"
    by (rule first)
  have prd: "processed waiting_status"
    by (simp add: waiting_status_def)
  have skipped: "process_results (events (pipeline (set_status forwarder_AB ''study'' waiting_status)
        world_up 5000 study waiting_status [])) = []"
    using processor_applied_once [OF ids run, where iset = study and s = waiting_status
        and now = 5000] seen prd
      processor_applied_once [where fw = "set_status forwarder_AB ''study'' waiting_status"
        and invs = "[]" and k = "''study''" and w = world_up and hist = "[]"
        and fw' = "set_status forwarder_AB ''study'' waiting_status" and evs = "[]"
        and iset = study and s = waiting_status and now = 5000]
    by simp
  from once flag seen prd skipped show ?thesis by (simp add: study_def)
qed

section \<open>The forward step\<close>

text \<open>
  C7. A destination whose name is in the list of destinations already sent, as passed to
  \<^verbatim>\<open>forward\<close>, is not sent to again: no send call of the forward step has it as target. It
  is still in the list that \<^verbatim>\<open>forward\<close> returns, so it counts when
  \<^verbatim>\<open>handle_instances_set\<close> compares that list with the configured destinations.
\<close>

theorem forward_skips_destinations_already_sent:
  assumes "d \<in> set (destinations fw)" and "destination d \<in> set already"
  shows "destination d \<in> set (fst (forward fw w iset already hist))
       \<and> (\<forall>e \<in> set (snd (forward fw w iset already hist)).
             send_target (fst e) \<noteq> Some (destination d))"
  using assms forward_loop_already_kept [of "destination d" already "destinations fw" w iset hist]
    forward_loop_no_send_to_already [of "destination d" already w iset "destinations fw" hist]
  by (simp add: forward_def)

theorem forward_skips_destinations_already_sent_witness:
  "dest_A \<in> set (destinations forwarder_AB) \<and> destination dest_A \<in> set [''A'']
   \<and> forward forwarder_AB world_up study [''A''] []
       = ([''A'', ''B''], [(Peers_send ''B'' [''i1'', ''i2'', ''i3''] , True)])
   \<and> destination dest_A \<in> set (fst (forward forwarder_AB world_up study [''A''] []))
   \<and> send_target (Peers_send ''B'' [''i1'', ''i2'', ''i3'']) \<noteq> Some (destination dest_A)"
proof -
  have h1: "dest_A \<in> set (destinations forwarder_AB)"
    by (simp add: forwarder_AB_def)
  have h2: "destination dest_A \<in> set [''A'']"
    by (simp add: dest_A_def)
  have run: "forward forwarder_AB world_up study [''A''] []
       = ([''A'', ''B''], [(Peers_send ''B'' [''i1'', ''i2'', ''i3''] , True)])"
    by (simp add: forward_def forwarder_AB_def dest_A_def dest_B_def world_up_def study_def
        forward_to_destination_def call_api_def instances_ids_def)
  from h1 h2 run forward_skips_destinations_already_sent [OF h1 h2, of world_up study "[]"]
  show ?thesis by simp
qed



text \<open>
  C8. What the code does for a series above the threshold in the mode
  \<^verbatim>\<open>DICOM_WEB_SERIES_BY_SERIES\<close>: after reading the series, line 326 calls
  \<^verbatim>\<open>get_instances_ids\<close> with the keyword \<^verbatim>\<open>seris_id\<close>, which raises TypeError; no instance
  of the series is sent.
\<close>

theorem large_series_not_sent_by_instance:
  "forwarder_mode dest_W = DICOM_WEB_SERIES_BY_SERIES
   \<and> uncompressed_size world_large_series ''s1'' > 1 * 1024 * 1024 * 1024
   \<and> forward_to_destination world_large_series study dest_W []
       = (Some TypeError, [(Series_get ''s1'', True)])"
  by (simp add: forward_to_destination_def dest_W_def world_large_series_def study_def
      series_ids_def send_web_series_def call_api_def get_instances_ids_def)

text \<open>
  C10. Two lists of destinations that differ only in their alternate destinations give
  the same dispatch for each destination, the same result of \<^verbatim>\<open>forward\<close> (destinations
  sent and calls made) and the same outcome, calls and status store of
  \<^verbatim>\<open>handle_instances_set\<close>. Every send goes to the name of a configured destination, also
  when a delivery fails.
\<close>

theorem alternate_destination_never_consulted:
  assumes "map without_alternate ds = map without_alternate ds'"
  shows "forward (fw\<lparr>destinations := ds\<rparr>) w iset already hist
           = forward (fw\<lparr>destinations := ds'\<rparr>) w iset already hist
       \<and> (\<forall>i < length ds. forward_to_destination w iset (ds ! i) hist
                           = forward_to_destination w iset (ds' ! i) hist)
       \<and> events (handle_instances_set (fw\<lparr>destinations := ds\<rparr>) w now iset hist)
           = events (handle_instances_set (fw\<lparr>destinations := ds'\<rparr>) w now iset hist)
       \<and> outcome (handle_instances_set (fw\<lparr>destinations := ds\<rparr>) w now iset hist)
           = outcome (handle_instances_set (fw\<lparr>destinations := ds'\<rparr>) w now iset hist)
       \<and> status (forwarder (handle_instances_set (fw\<lparr>destinations := ds\<rparr>) w now iset hist))
           = status (forwarder (handle_instances_set (fw\<lparr>destinations := ds'\<rparr>) w now iset hist))
       \<and> (\<forall>e \<in> set (snd (forward (fw\<lparr>destinations := ds\<rparr>) w iset already hist)).
            \<forall>t. send_target (fst e) = Some t \<longrightarrow> t \<in> destination ` set ds)"
proof -
  have each: "forward_to_destination w iset (ds ! i) hist = forward_to_destination w iset (ds' ! i) hist"
    if "i < length ds" for i
  proof -
    have "map without_alternate ds ! i = map without_alternate ds' ! i"
      using assms by simp
    moreover have "i < length ds'"
      using that map_eq_imp_length_eq [OF assms] by simp
    ultimately have "without_alternate (ds ! i) = without_alternate (ds' ! i)"
      using that by simp
    then show ?thesis by (rule forward_to_destination_alternate)
  qed
  have targets: "\<forall>e \<in> set (snd (forward (fw\<lparr>destinations := ds\<rparr>) w iset already hist)).
            \<forall>t. send_target (fst e) = Some t \<longrightarrow> t \<in> destination ` set ds"
    using forward_loop_targets [of w iset already ds hist] by (simp add: forward_def)
  show ?thesis
    using forward_destinations_alternate [OF assms, of fw w iset already hist] each targets
    by (simp add: handle_destinations_alternate [OF assms, of fw w now iset hist])
qed

theorem alternate_destination_never_consulted_witness:
  "map without_alternate [dest_A, dest_B] = map without_alternate [dest_A, dest_B_with_alternate]
   \<and> forward (forwarder_AB\<lparr>destinations := [dest_A, dest_B]\<rparr>) world_B_down study [] []
       = forward (forwarder_AB\<lparr>destinations := [dest_A, dest_B_with_alternate]\<rparr>) world_B_down study [] []
   \<and> events (handle_instances_set (forwarder_AB\<lparr>destinations := [dest_A, dest_B_with_alternate]\<rparr>)
        world_B_down 100 study [])
       = [(Process_instances [''i1'', ''i2'', ''i3''], True),
          (Modalities_send ''A'' [''i1'', ''i2'', ''i3''] None, True),
          (Peers_send ''B'' [''i1'', ''i2'', ''i3''], False)]"
proof -
  have h: "map without_alternate [dest_A, dest_B] = map without_alternate [dest_A, dest_B_with_alternate]"
    by (simp add: without_alternate_def dest_B_def dest_B_with_alternate_def)
  have same: "forwarder_AB\<lparr>destinations := [dest_A, dest_B]\<rparr> = forwarder_AB"
    by (simp add: forwarder_AB_def)
  from alternate_destination_never_consulted [OF h, of forwarder_AB world_B_down study "[]" "[]" 100]
  show ?thesis
    unfolding same run_AB_B_down using h by simp
qed

section \<open>Deletion and the status record\<close>

text \<open>
  C3, as amended. For destinations of distinct names: an invocation for an instances set
  seen for the first time calls the deletion of the set, as the filter left it, exactly
  when the filter step did not fail and the destinations whose delivery succeeded in
  this round are all the configured ones. The pipeline behind the retry gate, on a
  record whose sent destinations are configured ones, calls the deletion exactly when
  the filter step did not fail and the destinations recorded before, together with
  those whose delivery succeeded in this round, are all the configured ones. So while a
  configured destination is not covered, nothing is deleted.
\<close>

theorem deleted_iff_destinations_covered:
  assumes flt: "filter_set fw w iset hist = (fr, iset', fevs)"
    and names: "distinct (destination_names fw)"
  shows "(status fw (set_id iset) = None \<and> process fw w iset' (hist @ fevs) = (p, pevs) \<longrightarrow>
            deleted_set iset' (events (handle_instances_set fw w now iset hist))
            = (fr = None
               \<and> set (delivered_now w iset' [] (destinations fw) (hist @ fevs @ pevs))
                 = set (destination_names fw)))
       \<and> (set (sent_to_destinations s) \<subseteq> set (destination_names fw)
          \<and> (if \<not> processed s then process fw w iset' (hist @ fevs) else (True, [])) = (p, pevs) \<longrightarrow>
            deleted_set iset' (events (pipeline fw w now iset s hist))
            = (fr = None
               \<and> set (sent_to_destinations s)
                   \<union> set (delivered_now w iset' (sent_to_destinations s) (destinations fw)
                           (hist @ fevs @ pevs))
                 = set (destination_names fw)))"
proof (intro conjI impI)
  assume a: "status fw (set_id iset) = None \<and> process fw w iset' (hist @ fevs) = (p, pevs)"
  let ?fw = "set_status fw (set_id iset) new_status"
  have run: "handle_instances_set fw w now iset hist = pipeline ?fw w now iset new_status hist"
    using a by (simp add: handle_instances_set_def)
  have flt': "filter_set ?fw w iset hist = (fr, iset', fevs)"
    using flt by simp
  have prc': "(if \<not> processed new_status then process ?fw w iset' (hist @ fevs) else (True, []))
      = (p, pevs)"
    using a by (simp add: new_status_def)
  have names': "distinct (destination_names ?fw)"
    using names by (simp add: destination_names_def)
  have known': "set (sent_to_destinations new_status) \<subseteq> set (destination_names ?fw)"
    by (simp add: new_status_def)
  from pipeline_deleted_iff [OF flt' prc' names' known', of now]
  show "deleted_set iset' (events (handle_instances_set fw w now iset hist))
            = (fr = None
               \<and> set (delivered_now w iset' [] (destinations fw) (hist @ fevs @ pevs))
                 = set (destination_names fw))"
    unfolding run by (simp add: new_status_def destination_names_def)
next
  assume a: "set (sent_to_destinations s) \<subseteq> set (destination_names fw)
          \<and> (if \<not> processed s then process fw w iset' (hist @ fevs) else (True, [])) = (p, pevs)"
  then have prc: "(if \<not> processed s then process fw w iset' (hist @ fevs) else (True, [])) = (p, pevs)"
    and known: "set (sent_to_destinations s) \<subseteq> set (destination_names fw)"
    by simp_all
  show "deleted_set iset' (events (pipeline fw w now iset s hist))
            = (fr = None
               \<and> set (sent_to_destinations s)
                   \<union> set (delivered_now w iset' (sent_to_destinations s) (destinations fw)
                           (hist @ fevs @ pevs))
                 = set (destination_names fw))"
    by (rule pipeline_deleted_iff [OF flt prc names known])
qed

theorem deleted_iff_destinations_covered_witness:
  "filter_set forwarder_AB world_B_down study [] = (None, study, [])
   \<and> distinct (destination_names forwarder_AB)
   \<and> status forwarder_AB (set_id study) = None
   \<and> process forwarder_AB world_B_down study ([] @ [])
       = (True, [(Process_instances [''i1'', ''i2'', ''i3''], True)])
   \<and> delivered_now world_B_down study [] (destinations forwarder_AB)
        ([] @ [] @ [(Process_instances [''i1'', ''i2'', ''i3''], True)]) = [''A'']
   \<and> \<not> deleted_set study (events (handle_instances_set forwarder_AB world_B_down 100 study []))
   \<and> delivered_now world_up study [] (destinations forwarder_AB)
        ([] @ [] @ [(Process_instances [''i1'', ''i2'', ''i3''], True)]) = [''A'', ''B'']
   \<and> deleted_set study (events (handle_instances_set forwarder_AB world_up 100 study []))
   \<and> set (sent_to_destinations waiting_status)
       \<subseteq> set (destination_names (set_status forwarder_AB ''study'' waiting_status))
   \<and> delivered_now world_up study (sent_to_destinations waiting_status)
        (destinations (set_status forwarder_AB ''study'' waiting_status)) ([] @ [] @ []) = [''B'']
   \<and> deleted_set study (events (pipeline (set_status forwarder_AB ''study'' waiting_status)
        world_up 5000 study waiting_status []))"
proof -
  let ?proc = "(Process_instances [''i1'', ''i2'', ''i3''], True)"
  let ?waiting = "set_status forwarder_AB ''study'' waiting_status"
  have flt: "filter_set forwarder_AB w study [] = (None, study, [])" for w
    by (simp add: filter_set_def forwarder_AB_def)
  have flt': "filter_set ?waiting w study [] = (None, study, [])" for w
    by (simp add: filter_set_def forwarder_AB_def set_status_def)
  have names: "distinct (destination_names forwarder_AB)"
    by (simp add: destination_names_def forwarder_AB_def dest_A_def dest_B_def)
  have names': "distinct (destination_names ?waiting)"
    using names by (simp add: destination_names_def)
  have fresh: "status forwarder_AB (set_id study) = None"
    by (simp add: forwarder_AB_def)
  have prc_down: "process forwarder_AB world_B_down study ([] @ []) = (True, [?proc])"
    by (simp add: process_def forwarder_AB_def call_api_def world_B_down_def
        instances_ids_def study_def)
  have prc_up: "process forwarder_AB world_up study ([] @ []) = (True, [?proc])"
    by (simp add: process_def forwarder_AB_def call_api_def world_up_def
        instances_ids_def study_def)
  have now_down: "delivered_now world_B_down study [] (destinations forwarder_AB)
        ([] @ [] @ [?proc]) = [''A'']"
    by (simp add: forwarder_AB_def dest_A_def dest_B_def forward_to_destination_def
        call_api_def world_B_down_def)
  have now_up: "delivered_now world_up study [] (destinations forwarder_AB)
        ([] @ [] @ [?proc]) = [''A'', ''B'']"
    by (simp add: forwarder_AB_def dest_A_def dest_B_def forward_to_destination_def
        call_api_def world_up_def)
  have known: "set (sent_to_destinations waiting_status) \<subseteq> set (destination_names ?waiting)"
    by (simp add: waiting_status_def destination_names_def forwarder_AB_def dest_A_def)
  have prc_skip: "(if \<not> processed waiting_status then process ?waiting world_up study ([] @ [])
      else (True, [])) = (True, [])"
    by (simp add: waiting_status_def)
  have now_retry: "delivered_now world_up study (sent_to_destinations waiting_status)
        (destinations ?waiting) ([] @ [] @ []) = [''B'']"
    by (simp add: waiting_status_def forwarder_AB_def dest_A_def dest_B_def
        forward_to_destination_def call_api_def world_up_def)
  have all_names: "set (destination_names forwarder_AB) = {''A'', ''B''}"
    by (simp add: destination_names_def forwarder_AB_def dest_A_def dest_B_def)
  have all_names': "set (destination_names ?waiting) = {''A'', ''B''}"
    using all_names by (simp add: destination_names_def)
  have kept: "\<not> deleted_set study (events (handle_instances_set forwarder_AB world_B_down 100 study []))"
    using deleted_iff_destinations_covered [OF flt names, where w = world_B_down and p = True
        and pevs = "[?proc]" and now = 100 and s = waiting_status]
      fresh prc_down
    unfolding now_down all_names by auto
  have gone: "deleted_set study (events (handle_instances_set forwarder_AB world_up 100 study []))"
    using deleted_iff_destinations_covered [OF flt names, where w = world_up and p = True
        and pevs = "[?proc]" and now = 100 and s = waiting_status]
      fresh prc_up
    unfolding now_up all_names by auto
  have retried: "deleted_set study (events (pipeline ?waiting world_up 5000 study waiting_status []))"
    using deleted_iff_destinations_covered [OF flt' names', where w = world_up and p = True
        and pevs = "[]" and now = 5000 and s = waiting_status]
      known prc_skip
    unfolding now_retry all_names' by (auto simp: waiting_status_def)
  from flt [of world_B_down] names fresh prc_down now_down kept now_up gone known now_retry retried
  show ?thesis by simp
qed

text \<open>
  The claim C3 as first stated fails: with a modality and a peer that are both named A
  and the peer out of reach, the invocation returns, the names confirmed sent are the
  configured names, and nothing is deleted.
\<close>

theorem deleted_iff_names_covered_counterexample:
  "outcome (handle_instances_set forwarder_AA world_peers_down 100 study []) = Returned
   \<and> events (handle_instances_set forwarder_AA world_peers_down 100 study [])
       = [(Process_instances [''i1'', ''i2'', ''i3''], True),
          (Modalities_send ''A'' [''i1'', ''i2'', ''i3''] None, True),
          (Peers_send ''A'' [''i1'', ''i2'', ''i3''], False)]
   \<and> \<not> deleted (events (handle_instances_set forwarder_AA world_peers_down 100 study []))
   \<and> set (sent_before forwarder_AA ''study'')
       \<union> set (delivered_now world_peers_down study [] (destinations forwarder_AA)
               [(Process_instances [''i1'', ''i2'', ''i3''], True)])
     = set (destination_names forwarder_AA)"
  unfolding run_AA_peers_down
  by (simp add: deleted_def sent_before_def destination_names_def forwarder_AA_def dest_A_def
      dest_A_peer_def forward_to_destination_def call_api_def world_peers_down_def)

text \<open>
  C4, as amended. When the forward step of an invocation reports every configured
  destination as sent, the invocation deletes the instances set from the source, and
  that deletion is its last call. The status record of the identity stays in the status
  store: no invocation removes a record, and after any invocation the identity handled
  has one.
\<close>

theorem status_record_kept_after_full_delivery:
  "(\<forall>k. status fw k \<noteq> None \<longrightarrow>
        status (forwarder (handle_instances_set fw w now iset hist)) k \<noteq> None)
   \<and> status (forwarder (handle_instances_set fw w now iset hist)) (set_id iset) \<noteq> None
   \<and> (forwarded (handle_instances_set fw w now iset hist) = Some (destination_names fw) \<longrightarrow>
        events (handle_instances_set fw w now iset hist) \<noteq> []
        \<and> is_delete_set (fst (last (events (handle_instances_set fw w now iset hist)))))"
proof -
  have "length (destination_names fw) = length (destinations fw)"
    by (simp add: destination_names_def)
  then show ?thesis
    using handle_status_kept [of fw _ w now iset hist] handle_status_present [of fw w now iset hist]
      handle_forwarded_all [of fw w now iset hist "destination_names fw"]
    by blast
qed

theorem status_record_kept_after_full_delivery_witness:
  "forwarded (handle_instances_set forwarder_AB world_up 100 study [])
     = Some (destination_names forwarder_AB)
   \<and> is_delete_set (fst (last (events (handle_instances_set forwarder_AB world_up 100 study []))))
   \<and> status (forwarder (handle_instances_set forwarder_AB world_up 100 study [])) (set_id study)
       \<noteq> None"
proof -
  have all: "forwarded (handle_instances_set forwarder_AB world_up 100 study [])
     = Some (destination_names forwarder_AB)"
    unfolding run_AB_up
    by (simp add: destination_names_def forwarder_AB_def dest_A_def dest_B_def)
  from status_record_kept_after_full_delivery [of forwarder_AB world_up 100 study "[]"] all
  show ?thesis by blast
qed

text \<open>
  The claim C4 as first stated fails: after an invocation that delivered to both
  destinations and deleted the set, the record of the identity is still in the store.
\<close>

theorem status_record_removed_counterexample:
  "deleted (events (handle_instances_set forwarder_AB world_up 100 study []))
   \<and> status (forwarder (handle_instances_set forwarder_AB world_up 100 study [])) ''study''
     = Some \<lparr>processed = True, sent_to_destinations = [], retry_count = 0, next_retry = None\<rparr>"
  unfolding run_AB_up
  by (simp add: deleted_def new_status_def)

section \<open>The retry delay\<close>

text \<open>
  C9. The retry delay is defined for every retry count (the index never leaves the
  table), it never decreases when the retry count grows, and from the last index of the
  table on it is the last, largest duration of the table.
\<close>

theorem retry_delay_total_monotone_saturating:
  "(\<exists>d. retry_delay n = Inr d)
   \<and> (n \<le> m \<longrightarrow> (\<exists>a b. retry_delay n = Inr a \<and> retry_delay m = Inr b \<and> a \<le> b))
   \<and> (length retry_intervals - 1 \<le> n \<longrightarrow> retry_delay n = Inr (last retry_intervals))
   \<and> (\<forall>d. retry_delay n = Inr d \<longrightarrow> d \<le> last retry_intervals)"
proof -
  have len: "length retry_intervals - 1 = 4" and lst: "last retry_intervals = 3600"
    by (simp_all add: retry_intervals_def)
  show ?thesis
    unfolding len lst retry_delay_value [of n] retry_delay_value [of m]
    by auto
qed

theorem retry_delay_total_monotone_saturating_witness:
  "retry_delay 1 = Inr 120 \<and> retry_delay 7 = Inr 3600 \<and> retry_delay 4 = Inr 3600
   \<and> (\<exists>a b. retry_delay 1 = Inr a \<and> retry_delay 7 = Inr b \<and> a \<le> b)"
  using retry_delay_total_monotone_saturating [of 1 7]
  by (simp add: retry_delay_value)

end
